theory Spec2Isabelle
  imports Main "HOL-Library.Finite_Map" "HOL-Library.Word"
begin

section \<open>The resource pool of new\_pool.go\<close>

subsection \<open>Time\<close>

text \<open>
  A \<^verbatim>\<open>time.Time\<close> is a point on the clock, counted in nanoseconds; a
  \<^verbatim>\<open>time.Duration\<close> is an \<^verbatim>\<open>int64\<close> number of nanoseconds, so the product
  \<^verbatim>\<open>-1 * n.maxIdleTime\<close> is a 64-bit product and wraps.
\<close>

type_synonym time = int

type_synonym duration = "64 word"

definition Add :: "time \<Rightarrow> duration \<Rightarrow> time" where
  "Add t d = t + sint d"

definition Before :: "time \<Rightarrow> time \<Rightarrow> bool" where
  "Before t u \<longleftrightarrow> t < u"

subsection \<open>The mutex and the calls a pool makes\<close>

text \<open>
  \<^verbatim>\<open>PoolMutex\<close> is an interface with two implementations in the repository:
  \<^verbatim>\<open>sync.Mutex\<close> (what \<^verbatim>\<open>New\<close> installs; the flag says whether it is locked) and the
  \<^verbatim>\<open>MockMutex\<close> of the tests, whose methods only record that they were called.
  A call on a collaborator either returns, or never returns (\<open>Blocked\<close>: \<^verbatim>\<open>Lock\<close> on a
  locked \<^verbatim>\<open>sync.Mutex\<close>), or stops the process (\<open>Fatal\<close>: \<^verbatim>\<open>Unlock\<close> of an unlocked
  \<^verbatim>\<open>sync.Mutex\<close>).
\<close>

datatype PoolMutex = SyncMutex bool | MockMutex

datatype event = LockCall | UnlockCall | CreatorCall | Println string

datatype 'a outcome = Returned 'a | Blocked | Fatal

text \<open>
  The struct \<^verbatim>\<open>NewPool[T]\<close>. The two maps and the mutex live behind references, so the
  value receiver of every method shares them with the caller: the record holds their
  contents. The field \<^verbatim>\<open>creator\<close> is an external function; what it returns when it is
  called is an input of \<open>Acquire\<close> below. \<^verbatim>\<open>maxIdleSize\<close> is a Go \<^verbatim>\<open>int\<close> that is
  only compared, never computed with. \<open>trace\<close> is not a field of the struct: it
  records, in order, the calls made on the mutex, on the creator and on
  \<^verbatim>\<open>fmt.Println\<close>.
\<close>

record 'r NewPool =
  maxIdleSize :: int
  maxIdleTime :: duration
  mutex :: PoolMutex
  lock :: "('r, time) fmap"
  unlock :: "('r, time) fmap"
  trace :: "event list"

definition emit :: "event \<Rightarrow> 'r NewPool \<Rightarrow> 'r NewPool" where
  "emit ev n = n\<lparr>trace := trace n @ [ev]\<rparr>"

definition Lock :: "'r NewPool \<Rightarrow> unit outcome \<times> 'r NewPool" where
  "Lock n =
     (case mutex n of
        SyncMutex held \<Rightarrow>
          if held then (Blocked, emit LockCall n)
          else (Returned (), (emit LockCall n)\<lparr>mutex := SyncMutex True\<rparr>)
      | MockMutex \<Rightarrow> (Returned (), emit LockCall n))"

definition Unlock :: "'r NewPool \<Rightarrow> unit outcome \<times> 'r NewPool" where
  "Unlock n =
     (case mutex n of
        SyncMutex held \<Rightarrow>
          if held then (Returned (), (emit UnlockCall n)\<lparr>mutex := SyncMutex False\<rparr>)
          else (Fatal, emit UnlockCall n)
      | MockMutex \<Rightarrow> (Returned (), emit UnlockCall n))"

text \<open>
  \<^verbatim>\<open>n.mutex.Lock(); defer n.mutex.Unlock(); body\<close>: the deferred call runs when the
  body returns, and does not run when the body never returns.
\<close>

definition with_mutex ::
  "('r NewPool \<Rightarrow> 'a outcome \<times> 'r NewPool) \<Rightarrow> 'r NewPool \<Rightarrow> 'a outcome \<times> 'r NewPool" where
  "with_mutex body n =
     (case Lock n of
        (Blocked, n1) \<Rightarrow> (Blocked, n1)
      | (Fatal, n1) \<Rightarrow> (Fatal, n1)
      | (Returned _, n1) \<Rightarrow>
          (case body n1 of
             (Blocked, n2) \<Rightarrow> (Blocked, n2)
           | (Fatal, n2) \<Rightarrow> (Fatal, n2)
           | (Returned v, n2) \<Rightarrow>
               (case Unlock n2 of
                  (Blocked, n3) \<Rightarrow> (Blocked, n3)
                | (Fatal, n3) \<Rightarrow> (Fatal, n3)
                | (Returned _, n3) \<Rightarrow> (Returned v, n3))))"

subsection \<open>The operations\<close>

definition NumIdle :: "'r NewPool \<Rightarrow> int outcome \<times> 'r NewPool" where
  "NumIdle = with_mutex (\<lambda>n. (Returned (int (fcard (fmdom (unlock n)))), n))"

definition getValidTimestamp :: "time \<Rightarrow> 'r NewPool \<Rightarrow> time" where
  "getValidTimestamp now n = Add now (- 1 * maxIdleTime n)"

text \<open>
  The loop of \<^verbatim>\<open>deleteInvalidIdleResources\<close>, over the keys in the order in which
  \<^verbatim>\<open>range n.unlock\<close> yields them. The Go runtime chooses that order; it yields each
  key of the map once (\<open>range_of\<close>). A key that is not in the map is never yielded by
  \<^verbatim>\<open>range\<close>; the loop skips it.
\<close>

fun delete_invalid :: "time \<Rightarrow> 'r list \<Rightarrow> ('r, time) fmap \<Rightarrow> ('r, time) fmap" where
  "delete_invalid validTimestamp [] m = m"
| "delete_invalid validTimestamp (key # keys) m =
     (case fmlookup m key of
        None \<Rightarrow> delete_invalid validTimestamp keys m
      | Some savedTimestamp \<Rightarrow>
          if Before savedTimestamp validTimestamp
          then delete_invalid validTimestamp keys (fmdrop key m)
          else delete_invalid validTimestamp keys m)"

definition deleteInvalidIdleResources :: "time \<Rightarrow> 'r list \<Rightarrow> 'r NewPool \<Rightarrow> 'r NewPool" where
  "deleteInvalidIdleResources now keys n =
     (let validTimestamp = getValidTimestamp now n
      in n\<lparr>unlock := delete_invalid validTimestamp keys (unlock n)\<rparr>)"

text \<open>
  What \<^verbatim>\<open>range m\<close> yields: the keys that are in the map \<open>m\<close> when the loop runs, in the
  order of the runtime. The list \<open>order\<close> is that order; a key of the list that is not
  in the map is not yielded.
\<close>

definition range_keys :: "'r list \<Rightarrow> ('r, time) fmap \<Rightarrow> 'r list" where
  "range_keys order m = filter (\<lambda>key. fmlookup m key \<noteq> None) order"

text \<open>
  \<^verbatim>\<open>getIdleResource\<close> ranges over \<^verbatim>\<open>n.unlock\<close> as it is when the function runs, and
  returns inside the first iteration of the loop.
\<close>

definition getIdleResource :: "'r list \<Rightarrow> time \<Rightarrow> 'r NewPool \<Rightarrow> 'r option \<times> 'r NewPool" where
  "getIdleResource order now n =
     (case range_keys order (unlock n) of
        [] \<Rightarrow> (None, n)
      | resource # _ \<Rightarrow>
          (Some resource,
           n\<lparr>unlock := fmdrop resource (unlock n), lock := fmupd resource now (lock n)\<rparr>))"

text \<open>
  What the surroundings answer during one call of \<^verbatim>\<open>Acquire\<close>: the clock reading
  inside \<^verbatim>\<open>getValidTimestamp\<close>, the orders in which the runtime visits the keys in the
  two \<^verbatim>\<open>range\<close> loops, what the creator returns if it is called (\<open>Inl\<close> a non-nil error), and the clock reading
  stored with the checked-out resource. The argument \<^verbatim>\<open>ctx\<close> of \<^verbatim>\<open>Acquire\<close> is only
  handed to the creator. The creator is taken to return and not to touch the pool.
\<close>

record ('r, 'e) acquire_env =
  sweep_now :: time
  sweep_range :: "'r list"
  pick_range :: "'r list"
  creator_result :: "'e + 'r"
  checkout_now :: time

definition Acquire ::
  "('r, 'e) acquire_env \<Rightarrow> 'r NewPool \<Rightarrow> ('e + 'r) outcome \<times> 'r NewPool" where
  "Acquire env =
     with_mutex (\<lambda>n.
       let n1 = deleteInvalidIdleResources (sweep_now env) (sweep_range env) n
       in case getIdleResource (pick_range env) (checkout_now env) n1 of
            (Some resource, n2) \<Rightarrow> (Returned (Inr resource), n2)
          | (None, n2) \<Rightarrow>
              (let n3 = emit CreatorCall n2
               in case creator_result env of
                    Inl err \<Rightarrow> (Returned (Inl err), n3)
                  | Inr resource \<Rightarrow>
                      (Returned (Inr resource),
                       n3\<lparr>lock := fmupd resource (checkout_now env) (lock n3)\<rparr>)))"

text \<open>
  One call of \<^verbatim>\<open>Release\<close> reads the clock in \<^verbatim>\<open>getValidTimestamp\<close> and again when it
  stores the resource in the idle map.
\<close>

record release_env =
  valid_now :: time
  idle_now :: time

definition not_acquired_msg :: string where
  "not_acquired_msg = ''resource not previously acquired; not returning to idle resource pool''"

definition expired_msg :: string where
  "expired_msg = ''resource already expired; not returning to idle resource pool''"

definition Release :: "'r \<Rightarrow> release_env \<Rightarrow> 'r NewPool \<Rightarrow> unit outcome \<times> 'r NewPool" where
  "Release resource env =
     with_mutex (\<lambda>n.
       case fmlookup (lock n) resource of
         None \<Rightarrow> (Returned (), emit (Println not_acquired_msg) n)
       | Some savedTimestamp \<Rightarrow>
           (let n1 = n\<lparr>lock := fmdrop resource (lock n)\<rparr>;
                validTimestamp = getValidTimestamp (valid_now env) n1
            in if Before savedTimestamp validTimestamp
               then (Returned (), emit (Println expired_msg) n1)
               else (case NumIdle n1 of
                       (Blocked, n2) \<Rightarrow> (Blocked, n2)
                     | (Fatal, n2) \<Rightarrow> (Fatal, n2)
                     | (Returned numIdle, n2) \<Rightarrow>
                         if numIdle \<ge> maxIdleSize n2
                         then (Returned (), emit (Println expired_msg) n2)
                         else (Returned (),
                               n2\<lparr>unlock := fmupd resource (idle_now env) (unlock n2)\<rparr>))))"

definition New :: "int \<Rightarrow> duration \<Rightarrow> 'r NewPool" where
  "New idleSize idleTime =
     \<lparr>maxIdleSize = idleSize, maxIdleTime = idleTime, mutex = SyncMutex False,
      lock = fmempty, unlock = fmempty, trace = []\<rparr>"

text \<open>
  The struct literal with which the tests build a pool: a \<^verbatim>\<open>MockMutex\<close> and the two maps
  given by the test case.
\<close>

definition test_pool ::
  "int \<Rightarrow> duration \<Rightarrow> ('r, time) fmap \<Rightarrow> ('r, time) fmap \<Rightarrow> 'r NewPool" where
  "test_pool idleSize idleTime usedResourcePool idleResourcePool =
     \<lparr>maxIdleSize = idleSize, maxIdleTime = idleTime, mutex = MockMutex,
      lock = usedResourcePool, unlock = idleResourcePool, trace = []\<rparr>"

subsection \<open>Sequences of calls\<close>

text \<open>
  Every operation runs under the pool's mutex, so a run of the pool is a sequence of
  calls. A call that finds the \<^verbatim>\<open>sync.Mutex\<close> locked at its start waits for a call that
  is itself blocked while holding it, and so never returns either; it changes nothing but
  the trace.
\<close>

text \<open>
  \<open>range_of keys m\<close>: the list is an order of the keys of the map. For a call of
  \<^verbatim>\<open>Acquire\<close> both orders are orders of the keys that the idle map holds when the call
  starts; which of these keys each loop still finds in the map is decided by the code.
\<close>

definition range_of :: "'r list \<Rightarrow> ('r, time) fmap \<Rightarrow> bool" where
  "range_of keys m \<longleftrightarrow> distinct keys \<and> fset_of_list keys = fmdom m"

definition acquire_ranges :: "('r, 'e) acquire_env \<Rightarrow> 'r NewPool \<Rightarrow> bool" where
  "acquire_ranges env n \<longleftrightarrow>
     range_of (sweep_range env) (unlock n) \<and> range_of (pick_range env) (unlock n)"

datatype ('r, 'e) call =
    CallAcquire "('r, 'e) acquire_env"
  | CallRelease 'r release_env
  | CallNumIdle

fun step :: "('r, 'e) call \<Rightarrow> 'r NewPool \<Rightarrow> 'r NewPool" where
  "step (CallAcquire env) n = snd (Acquire env n)"
| "step (CallRelease resource env) n = snd (Release resource env n)"
| "step CallNumIdle n = snd (NumIdle n)"

fun run :: "('r, 'e) call list \<Rightarrow> 'r NewPool \<Rightarrow> 'r NewPool" where
  "run [] n = n"
| "run (c # cs) n = run cs (step c n)"

fun call_ranges :: "('r, 'e) call \<Rightarrow> 'r NewPool \<Rightarrow> bool" where
  "call_ranges (CallAcquire env) n = acquire_ranges env n"
| "call_ranges (CallRelease resource env) n = True"
| "call_ranges CallNumIdle n = True"

fun run_ranges :: "('r, 'e) call list \<Rightarrow> 'r NewPool \<Rightarrow> bool" where
  "run_ranges [] n = True"
| "run_ranges (c # cs) n = (call_ranges c n \<and> run_ranges cs (step c n))"

subsection \<open>Notions used to state the properties\<close>

text \<open>
  The sweep as the specification words it: of the idle map, the entries whose timestamp is
  not older than the threshold remain. It is compared below with the loop
  \<open>delete_invalid\<close> of the source.
\<close>

definition sweep_spec :: "time \<Rightarrow> ('r, time) fmap \<Rightarrow> ('r, time) fmap" where
  "sweep_spec validTimestamp m =
     fmfilter (\<lambda>k. case fmlookup m k of None \<Rightarrow> False
                                      | Some ts \<Rightarrow> \<not> Before ts validTimestamp) m"

text \<open>
  The keys that the loop of \<^verbatim>\<open>getIdleResource\<close> yields in a call of \<^verbatim>\<open>Acquire\<close>: it
  ranges over the idle map that \<^verbatim>\<open>deleteInvalidIdleResources\<close> has left.
\<close>

definition offered :: "('r, 'e) acquire_env \<Rightarrow> 'r NewPool \<Rightarrow> 'r list" where
  "offered env n =
     range_keys (pick_range env)
       (unlock (deleteInvalidIdleResources (sweep_now env) (sweep_range env) n))"

text \<open>How often the creator has been called so far.\<close>

definition creator_calls :: "'r NewPool \<Rightarrow> nat" where
  "creator_calls n = count_list (trace n) CreatorCall"

section \<open>Auxiliary facts\<close>

subsection \<open>The sweep loop\<close>

lemmas defs = Release_def Acquire_def with_mutex_def Lock_def Unlock_def emit_def NumIdle_def
  deleteInvalidIdleResources_def getIdleResource_def

lemmas eval_defs = defs New_def test_pool_def range_of_def acquire_ranges_def range_keys_def
  getValidTimestamp_def Add_def Before_def Let_def fcard_fempty fcard_finsert_if
  creator_calls_def sweep_spec_def fmdrop_fmupd

lemma delete_invalid_lookup:
  "fmlookup (delete_invalid v keys m) k =
     (if k \<in> set keys \<and> (\<exists>ts. fmlookup m k = Some ts \<and> Before ts v) then None else fmlookup m k)"
  by (induction keys arbitrary: m) (auto split: option.splits)

lemma range_of_set: "range_of keys m \<Longrightarrow> k \<in> set keys \<longleftrightarrow> fmlookup m k \<noteq> None"
  unfolding range_of_def
  by (metis fmdom_notI fmdom_notD fset_of_list.rep_eq)

lemma delete_invalid_sweep_spec:
  assumes "range_of keys m"
  shows "delete_invalid v keys m = sweep_spec v m"
proof (rule fmap_ext)
  fix k
  show "fmlookup (delete_invalid v keys m) k = fmlookup (sweep_spec v m) k"
    using range_of_set [OF assms, of k]
    by (auto simp: delete_invalid_lookup sweep_spec_def split: option.splits)
qed

lemma range_keys_Nil: "range_keys order m = [] \<Longrightarrow> k \<in> set order \<Longrightarrow> fmlookup m k = None"
  by (auto simp: range_keys_def filter_empty_conv)

lemma range_keys_Cons: "range_keys order m = r # rest \<Longrightarrow> fmlookup m r \<noteq> None"
proof -
  assume "range_keys order m = r # rest"
  then have "r \<in> set (filter (\<lambda>key. fmlookup m key \<noteq> None) order)"
    by (simp add: range_keys_def)
  then show ?thesis by simp
qed

subsection \<open>What one call does\<close>

lemma Acquire_blocked:
  "mutex n = SyncMutex True \<Longrightarrow> Acquire env n = (Blocked, emit LockCall n)"
  by (simp add: Acquire_def with_mutex_def Lock_def)

lemma Release_blocked:
  "mutex n = SyncMutex True \<Longrightarrow> Release r env n = (Blocked, emit LockCall n)"
  by (simp add: Release_def with_mutex_def Lock_def)

lemma Acquire_reuse:
  assumes "mutex n \<noteq> SyncMutex True" "offered env n = r # rest"
  shows "fst (Acquire env n) = Returned (Inr r)"
    and "lock (snd (Acquire env n)) = fmupd r (checkout_now env) (lock n)"
    and "unlock (snd (Acquire env n)) =
           fmdrop r (delete_invalid (getValidTimestamp (sweep_now env) n) (sweep_range env) (unlock n))"
    and "trace (snd (Acquire env n)) = trace n @ [LockCall, UnlockCall]"
    and "mutex (snd (Acquire env n)) = mutex n"
    and "maxIdleSize (snd (Acquire env n)) = maxIdleSize n"
    and "maxIdleTime (snd (Acquire env n)) = maxIdleTime n"
  using assms by (cases "mutex n"; simp add: defs offered_def getValidTimestamp_def Let_def)+

lemma Acquire_create:
  assumes "mutex n \<noteq> SyncMutex True" "offered env n = []"
  shows "fst (Acquire env n) = Returned (creator_result env)"
    and "lock (snd (Acquire env n)) =
           (case creator_result env of Inl err \<Rightarrow> lock n
            | Inr r \<Rightarrow> fmupd r (checkout_now env) (lock n))"
    and "unlock (snd (Acquire env n)) =
           delete_invalid (getValidTimestamp (sweep_now env) n) (sweep_range env) (unlock n)"
    and "trace (snd (Acquire env n)) = trace n @ [LockCall, CreatorCall, UnlockCall]"
    and "mutex (snd (Acquire env n)) = mutex n"
    and "maxIdleSize (snd (Acquire env n)) = maxIdleSize n"
    and "maxIdleTime (snd (Acquire env n)) = maxIdleTime n"
  using assms
  by (cases "mutex n"; cases "creator_result env";
      simp add: defs offered_def getValidTimestamp_def Let_def)+

lemma Release_lock:
  "lock (snd (Release r env n)) =
     (if mutex n = SyncMutex True then lock n else fmdrop r (lock n))"
proof (cases "fmlookup (lock n) r")
  case None
  then have "fmdrop r (lock n) = lock n"
    by (intro fmap_ext) auto
  with None show ?thesis
    by (cases "mutex n") (auto simp: defs)
next
  case (Some ts)
  then show ?thesis
    by (cases "mutex n") (auto simp: defs Let_def split: if_splits)
qed

lemma Release_unlock:
  "unlock (snd (Release r env n)) =
     (if mutex n = MockMutex \<and> int (fcard (fmdom (unlock n))) < maxIdleSize n \<and>
         (\<exists>ts. fmlookup (lock n) r = Some ts \<and> \<not> Before ts (getValidTimestamp (valid_now env) n))
      then fmupd r (idle_now env) (unlock n) else unlock n)"
  by (cases "mutex n"; cases "fmlookup (lock n) r")
     (auto simp: defs Let_def getValidTimestamp_def split: if_splits)

lemma Release_config:
  "maxIdleSize (snd (Release r env n)) = maxIdleSize n"
  "maxIdleTime (snd (Release r env n)) = maxIdleTime n"
  by (cases "mutex n"; cases "fmlookup (lock n) r";
      auto simp: defs Let_def getValidTimestamp_def split: if_splits)+

lemma Release_outcome:
  "fst (Release r env n) =
     (if mutex n = SyncMutex True then Blocked
      else if mutex n = SyncMutex False \<and>
              (\<exists>ts. fmlookup (lock n) r = Some ts \<and> \<not> Before ts (getValidTimestamp (valid_now env) n))
      then Blocked else Returned ())"
  by (cases "mutex n"; cases "fmlookup (lock n) r")
     (auto simp: defs Let_def getValidTimestamp_def split: if_splits)

lemma NumIdle_maps:
  "lock (snd (NumIdle n)) = lock n" "unlock (snd (NumIdle n)) = unlock n"
  "maxIdleSize (snd (NumIdle n)) = maxIdleSize n"
  by (cases "mutex n"; auto simp: defs)+

subsection \<open>Disjointness is preserved by every call\<close>

lemma maps_disjoint_iff:
  "fmdom' a \<inter> fmdom' b = {} \<longleftrightarrow> (\<forall>k. fmlookup a k = None \<or> fmlookup b k = None)"
proof
  assume d: "fmdom' a \<inter> fmdom' b = {}"
  show "\<forall>k. fmlookup a k = None \<or> fmlookup b k = None"
  proof
    fix k
    from d have "k \<notin> fmdom' a \<or> k \<notin> fmdom' b" by blast
    then show "fmlookup a k = None \<or> fmlookup b k = None"
      by (auto simp: fmlookup_dom'_iff)
  qed
next
  assume "\<forall>k. fmlookup a k = None \<or> fmlookup b k = None"
  then have "k \<notin> fmdom' a \<or> k \<notin> fmdom' b" for k
    using fmdom'_notI by metis
  then show "fmdom' a \<inter> fmdom' b = {}" by blast
qed

lemma Release_disjoint:
  assumes dis: "fmdom' (lock n) \<inter> fmdom' (unlock n) = {}"
  shows "fmdom' (lock (snd (Release r env n))) \<inter> fmdom' (unlock (snd (Release r env n))) = {}"
proof -
  have "fmdom' (lock (snd (Release r env n))) \<subseteq> fmdom' (lock n)"
    by (simp add: Release_lock)
  moreover have "fmdom' (unlock (snd (Release r env n))) \<subseteq> insert r (fmdom' (unlock n))"
    by (auto simp add: Release_unlock)
  moreover have "r \<in> fmdom' (unlock (snd (Release r env n))) \<Longrightarrow> r \<notin> fmdom' (unlock n) \<Longrightarrow>
     r \<notin> fmdom' (lock (snd (Release r env n)))"
    by (simp add: Release_lock Release_unlock split: if_splits)
  ultimately show ?thesis using dis by blast
qed

lemma delete_invalid_dom:
  "fmlookup (delete_invalid v keys m) k = Some ts \<Longrightarrow> fmlookup m k = Some ts"
  by (simp add: delete_invalid_lookup split: if_splits)

lemma Acquire_disjoint:
  assumes ok: "acquire_ranges env n"
    and dis: "fmdom' (lock n) \<inter> fmdom' (unlock n) = {}"
  shows "fmdom' (lock (snd (Acquire env n))) \<inter> fmdom' (unlock (snd (Acquire env n))) = {}"
proof (cases "mutex n = SyncMutex True")
  case True
  then show ?thesis using dis by (simp add: Acquire_blocked emit_def)
next
  case free: False
  show ?thesis
  proof (cases "offered env n")
    case Nil
    from ok have pick: "range_of (pick_range env) (unlock n)"
      by (simp add: acquire_ranges_def)
    have "delete_invalid (getValidTimestamp (sweep_now env) n) (sweep_range env) (unlock n) = fmempty"
    proof (rule fmap_ext)
      fix k
      let ?m = "delete_invalid (getValidTimestamp (sweep_now env) n) (sweep_range env) (unlock n)"
      show "fmlookup ?m k = fmlookup fmempty k"
      proof (cases "fmlookup ?m k")
        case None
        then show ?thesis by simp
      next
        case (Some ts)
        then have "fmlookup (unlock n) k = Some ts" by (rule delete_invalid_dom)
        then have "k \<in> set (pick_range env)"
          using range_of_set [OF pick, of k] by simp
        with Nil have "fmlookup ?m k = None"
          by (simp add: offered_def deleteInvalidIdleResources_def range_keys_Nil)
        with Some show ?thesis by simp
      qed
    qed
    then show ?thesis
      by (simp add: Acquire_create(3) [OF free Nil])
  next
    case (Cons r rest)
    have "fmlookup (lock (snd (Acquire env n))) k = None \<or>
          fmlookup (unlock (snd (Acquire env n))) k = None" for k
    proof (cases "k = r")
      case True
      then show ?thesis by (simp add: Acquire_reuse(3) [OF free Cons])
    next
      case False
      show ?thesis
      proof (cases "fmlookup (unlock n) k")
        case None
        then have "fmlookup (delete_invalid (getValidTimestamp (sweep_now env) n) (sweep_range env) (unlock n)) k = None"
          by (simp add: delete_invalid_lookup)
        then show ?thesis by (simp add: Acquire_reuse(3) [OF free Cons])
      next
        case (Some ts)
        with dis have "fmlookup (lock n) k = None"
          unfolding maps_disjoint_iff by (metis option.distinct(1))
        with False show ?thesis by (simp add: Acquire_reuse(2) [OF free Cons])
      qed
    qed
    then show ?thesis unfolding maps_disjoint_iff by blast
  qed
qed

lemma step_disjoint:
  assumes "call_ranges c n" "fmdom' (lock n) \<inter> fmdom' (unlock n) = {}"
  shows "fmdom' (lock (step c n)) \<inter> fmdom' (unlock (step c n)) = {}"
  using assms
  by (cases c) (simp_all add: Acquire_disjoint Release_disjoint NumIdle_maps)

lemma run_disjoint:
  "run_ranges cs n \<Longrightarrow> fmdom' (lock n) \<inter> fmdom' (unlock n) = {} \<Longrightarrow>
   fmdom' (lock (run cs n)) \<inter> fmdom' (unlock (run cs n)) = {}"
proof (induction cs arbitrary: n)
  case Nil
  then show ?case by simp
next
  case (Cons c cs)
  then show ?case by (simp add: step_disjoint)
qed

subsection \<open>The sweep and the creator, seen from one call of Acquire\<close>

lemma sweep_spec_lookup:
  "fmlookup (sweep_spec v m) k =
     (case fmlookup m k of None \<Rightarrow> None | Some ts \<Rightarrow> if Before ts v then None else Some ts)"
  by (simp add: sweep_spec_def split: option.splits)

lemma acquire_ranges_sweep:
  assumes "acquire_ranges env n"
  shows "delete_invalid (getValidTimestamp (sweep_now env) n) (sweep_range env) (unlock n) =
         sweep_spec (getValidTimestamp (sweep_now env) n) (unlock n)"
  using assms by (simp add: acquire_ranges_def delete_invalid_sweep_spec)

lemma offered_sweep_spec:
  assumes "acquire_ranges env n"
  shows "offered env n =
         range_keys (pick_range env) (sweep_spec (getValidTimestamp (sweep_now env) n) (unlock n))"
  by (simp add: offered_def deleteInvalidIdleResources_def acquire_ranges_sweep [OF assms])

lemma offered_Cons:
  assumes "acquire_ranges env n" and "offered env n = r # rest"
  shows "fmlookup (sweep_spec (getValidTimestamp (sweep_now env) n) (unlock n)) r \<noteq> None"
  using assms(2) unfolding offered_sweep_spec [OF assms(1)] by (rule range_keys_Cons)

lemma offered_Nil:
  assumes "acquire_ranges env n" and "offered env n = []"
  shows "sweep_spec (getValidTimestamp (sweep_now env) n) (unlock n) = fmempty"
proof (rule fmap_ext)
  fix k
  let ?m = "sweep_spec (getValidTimestamp (sweep_now env) n) (unlock n)"
  from assms(1) have pick: "range_of (pick_range env) (unlock n)"
    by (simp add: acquire_ranges_def)
  show "fmlookup ?m k = fmlookup fmempty k"
  proof (cases "fmlookup ?m k")
    case None
    then show ?thesis by simp
  next
    case (Some ts)
    then have "fmlookup (unlock n) k \<noteq> None"
      by (auto simp: sweep_spec_lookup split: option.splits)
    then have "k \<in> set (pick_range env)"
      using range_of_set [OF pick, of k] by simp
    with assms(2) have "fmlookup ?m k = None"
      unfolding offered_sweep_spec [OF assms(1)] by (rule range_keys_Nil)
    with Some show ?thesis by simp
  qed
qed

lemma Acquire_creator_calls:
  "creator_calls (snd (Acquire env n)) =
     (if mutex n \<noteq> SyncMutex True \<and> offered env n = [] then Suc (creator_calls n)
      else creator_calls n)"
proof (cases "mutex n = SyncMutex True")
  case True
  then show ?thesis by (simp add: Acquire_blocked emit_def creator_calls_def)
next
  case False
  then show ?thesis
    by (cases "offered env n")
       (simp_all add: creator_calls_def Acquire_create(4) Acquire_reuse(4))
qed

subsection \<open>The idle map never grows beyond its cap\<close>

lemma delete_invalid_subset: "fmdom (delete_invalid v keys m) |\<subseteq>| fmdom m"
proof
  fix k
  assume "k |\<in>| fmdom (delete_invalid v keys m)"
  then obtain ts where "fmlookup (delete_invalid v keys m) k = Some ts"
    by (auto simp: fmlookup_dom_iff)
  then have "fmlookup m k = Some ts" by (rule delete_invalid_dom)
  then show "k |\<in>| fmdom m" by (rule fmdomI)
qed

lemma Acquire_config:
  "maxIdleSize (snd (Acquire env n)) = maxIdleSize n"
  "maxIdleTime (snd (Acquire env n)) = maxIdleTime n"
proof -
  show "maxIdleSize (snd (Acquire env n)) = maxIdleSize n"
    by (cases "mutex n = SyncMutex True"; cases "offered env n")
       (simp_all add: Acquire_blocked emit_def Acquire_create(6) Acquire_reuse(6))
  show "maxIdleTime (snd (Acquire env n)) = maxIdleTime n"
    by (cases "mutex n = SyncMutex True"; cases "offered env n")
       (simp_all add: Acquire_blocked emit_def Acquire_create(7) Acquire_reuse(7))
qed

lemma Acquire_idle_subset: "fmdom (unlock (snd (Acquire env n))) |\<subseteq>| fmdom (unlock n)"
proof (cases "mutex n = SyncMutex True")
  case True
  then show ?thesis by (simp add: Acquire_blocked emit_def)
next
  case False
  show ?thesis
  proof (cases "offered env n")
    case Nil
    then show ?thesis by (simp add: Acquire_create(3) [OF False Nil] delete_invalid_subset)
  next
    case (Cons r rest)
    have "fmdom (unlock (snd (Acquire env n))) |\<subseteq>|
          fmdom (delete_invalid (getValidTimestamp (sweep_now env) n) (sweep_range env) (unlock n))"
      by (simp add: Acquire_reuse(3) [OF False Cons]) blast
    then show ?thesis using delete_invalid_subset by (rule order_trans)
  qed
qed

lemma Release_idle_cap:
  assumes "int (fcard (fmdom (unlock n))) \<le> maxIdleSize n"
  shows "int (fcard (fmdom (unlock (snd (Release r env n))))) \<le> maxIdleSize (snd (Release r env n))"
proof -
  have "fcard (finsert r (fmdom (unlock n))) \<le> Suc (fcard (fmdom (unlock n)))"
    by (simp add: fcard_finsert_if)
  with assms show ?thesis
    by (simp add: Release_unlock Release_config)
qed

lemma step_idle_cap:
  assumes "int (fcard (fmdom (unlock n))) \<le> maxIdleSize n"
  shows "int (fcard (fmdom (unlock (step c n)))) \<le> maxIdleSize (step c n)"
proof (cases c)
  case (CallAcquire env)
  have "fcard (fmdom (unlock (snd (Acquire env n)))) \<le> fcard (fmdom (unlock n))"
    using Acquire_idle_subset by (rule fcard_mono)
  with assms CallAcquire show ?thesis by (simp add: Acquire_config)
next
  case (CallRelease r env)
  with assms show ?thesis by (simp add: Release_idle_cap)
next
  case CallNumIdle
  with assms show ?thesis by (simp add: NumIdle_maps)
qed

lemma run_idle_cap:
  "int (fcard (fmdom (unlock n))) \<le> maxIdleSize n \<Longrightarrow>
   int (fcard (fmdom (unlock (run cs n)))) \<le> maxIdleSize (run cs n)"
  by (induction cs arbitrary: n) (simp_all add: step_idle_cap)

lemma New_run_idle_cap:
  assumes "0 \<le> idleSize"
  shows "int (fcard (fmdom (unlock (run cs (New idleSize idleTime))))) \<le>
         maxIdleSize (run cs (New idleSize idleTime))"
  using assms by (intro run_idle_cap) (simp add: New_def fcard_fempty)

subsection \<open>Pools built by New\<close>

text \<open>
  With the \<^verbatim>\<open>sync.Mutex\<close> that \<^verbatim>\<open>New\<close> installs, no call ever puts a resource into the
  idle map: \<^verbatim>\<open>Release\<close> reaches the insertion only through \<^verbatim>\<open>NumIdle\<close>, which locks
  the mutex that \<^verbatim>\<open>Release\<close> holds.
\<close>

lemma step_sync_idle_empty:
  assumes "mutex n = SyncMutex held" "unlock n = fmempty"
  shows "(\<exists>held'. mutex (step c n) = SyncMutex held') \<and> unlock (step c n) = fmempty"
proof (cases c)
  case (CallAcquire env)
  have "fmdom (unlock (snd (Acquire env n))) |\<subseteq>| {||}"
    using Acquire_idle_subset [of env n] assms(2) by simp
  then have "unlock (snd (Acquire env n)) = fmempty"
    by (metis fmrestrict_fset_dom fmrestrict_fset_null fsubset_fempty)
  moreover have "\<exists>held'. mutex (snd (Acquire env n)) = SyncMutex held'"
    using assms(1)
    by (cases held; cases "offered env n")
       (auto simp: Acquire_blocked emit_def Acquire_create(5) Acquire_reuse(5))
  ultimately show ?thesis using CallAcquire by simp
next
  case (CallRelease r env)
  have "\<exists>held'. mutex (snd (Release r env n)) = SyncMutex held'"
    using assms(1)
    by (cases "fmlookup (lock n) r"; cases held)
       (auto simp: defs Let_def split: if_splits)
  then show ?thesis using CallRelease assms by (simp add: Release_unlock)
next
  case CallNumIdle
  have "\<exists>held'. mutex (snd (NumIdle n)) = SyncMutex held'"
    using assms(1) by (cases held) (auto simp: defs)
  then show ?thesis using CallNumIdle assms by (simp add: NumIdle_maps)
qed

lemma run_sync_idle_empty:
  "mutex n = SyncMutex held \<Longrightarrow> unlock n = fmempty \<Longrightarrow> unlock (run cs n) = fmempty"
proof (induction cs arbitrary: n held)
  case Nil
  then show ?case by simp
next
  case (Cons c cs)
  from step_sync_idle_empty [OF Cons.prems, of c]
  obtain held' where "mutex (step c n) = SyncMutex held'" "unlock (step c n) = fmempty"
    by blast
  then show ?case using Cons.IH by simp
qed

lemma New_run_idle_empty: "unlock (run cs (New idleSize idleTime)) = fmempty"
  by (rule run_sync_idle_empty [where held = False]) (simp_all add: New_def)

subsection \<open>The comparisons with the threshold are strict\<close>

lemma sweep_keeps_threshold_entry:
  assumes "fmlookup (unlock n) r = Some (getValidTimestamp now n)"
  shows "fmlookup (unlock (deleteInvalidIdleResources now keys n)) r =
         Some (getValidTimestamp now n)"
  using assms
  by (simp add: deleteInvalidIdleResources_def delete_invalid_lookup Before_def)

lemma Release_threshold_mock:
  assumes "mutex n = MockMutex"
    and "fmlookup (lock n) r = Some (getValidTimestamp (valid_now env) n)"
    and "int (fcard (fmdom (unlock n))) < maxIdleSize n"
  shows "fst (Release r env n) = Returned () \<and>
         unlock (snd (Release r env n)) = fmupd r (idle_now env) (unlock n)"
  using assms by (simp add: Release_outcome Release_unlock Before_def)

lemma Release_fresh_sync:
  assumes "mutex n = SyncMutex False"
    and "fmlookup (lock n) r = Some ts"
    and "\<not> Before ts (getValidTimestamp (valid_now env) n)"
  shows "fst (Release r env n) = Blocked \<and> unlock (snd (Release r env n)) = unlock n"
  using assms by (simp add: Release_outcome Release_unlock)

text \<open>
  The threshold of \<^verbatim>\<open>getValidTimestamp\<close> is \<open>now - maxIdleTime\<close> on the integers for every
  duration but the least \<^verbatim>\<open>int64\<close>, whose negation wraps to itself.
\<close>

lemma getValidTimestamp_minus:
  assumes "maxIdleTime n \<noteq> - (2 ^ 63)"
  shows "getValidTimestamp now n = now - sint (maxIdleTime n)"
proof -
  let ?d = "maxIdleTime n"
  have lo: "- (2 ^ 63) \<le> sint ?d" and hi: "sint ?d < 2 ^ 63"
    using sint_ge [of ?d] sint_lt [of ?d] by simp_all
  have "sint ?d \<noteq> - (2 ^ 63)"
  proof
    assume "sint ?d = - (2 ^ 63)"
    then have "(word_of_int (sint ?d) :: 64 word) = word_of_int (- (2 ^ 63))" by simp
    then have "?d = - (2 ^ 63)" by simp
    with assms show False by simp
  qed
  with lo hi have "sint (- ?d) = - sint ?d"
    by (simp add: sint_word_ariths signed_take_bit_int_eq_self_iff)
  then show ?thesis
    by (simp add: getValidTimestamp_def Add_def)
qed

section \<open>The claims\<close>

text \<open>
  In the theorems below a call is run to its end: it returns, or it stops where it blocks.
  \<open>mutex n \<noteq> SyncMutex True\<close> says that the call obtains the pool's lock: no earlier
  call is stuck holding it. \<open>acquire_ranges env n\<close> says that the two orders of the
  runtime are orders of the idle keys at the start of the call; that the selection sees only
  what the sweep has left is a property of \<open>Acquire\<close>. The threshold written \<open>now - maxIdleTime\<close> in the
  specification is the time \<open>getValidTimestamp now n\<close> that the code computes.
  Resources are compared with equality, as the keys of a Go map are.
\<close>

text \<open>
  C1. Start from a pool as \<^verbatim>\<open>New\<close> builds it (both maps empty; the mutex may be the
  \<^verbatim>\<open>sync.Mutex\<close> of \<^verbatim>\<open>New\<close> or any other implementation) and run any sequence of
  \<^verbatim>\<open>Acquire\<close>, \<^verbatim>\<open>Release\<close> and \<^verbatim>\<open>NumIdle\<close> calls, with any creator results,
  including results equal to a resource that is idle or in use, and with any clock
  readings. Provided the runtime's two orders in every \<^verbatim>\<open>Acquire\<close> are orders of the
  keys that the idle map holds when that call starts, no resource is a key of both the
  in-use map \<open>lock\<close> and the idle map \<open>unlock\<close> afterwards. A call that blocks on the
  mutex leaves both maps as they are at that point.
\<close>

theorem in_use_idle_disjoint:
  assumes "run_ranges cs ((New idleSize idleTime)\<lparr>mutex := mx\<rparr>)"
  shows "fmdom' (lock (run cs ((New idleSize idleTime)\<lparr>mutex := mx\<rparr>))) \<inter>
         fmdom' (unlock (run cs ((New idleSize idleTime)\<lparr>mutex := mx\<rparr>))) = {}"
  using assms by (intro run_disjoint) (simp_all add: New_def)

theorem in_use_idle_disjoint_witness:
  "run_ranges
     [CallAcquire \<lparr>sweep_now = 10, sweep_range = [], pick_range = [],
                    creator_result = (Inr 1 :: string + nat), checkout_now = 10\<rparr>,
      CallRelease 1 \<lparr>valid_now = 11, idle_now = 12\<rparr>,
      CallAcquire \<lparr>sweep_now = 13, sweep_range = [1], pick_range = [1],
                    creator_result = Inr 1, checkout_now = 14\<rparr>]
     ((New 3 5)\<lparr>mutex := MockMutex\<rparr>) \<and>
   fmdom' (lock (run
     [CallAcquire \<lparr>sweep_now = 10, sweep_range = [], pick_range = [],
                    creator_result = (Inr 1 :: string + nat), checkout_now = 10\<rparr>,
      CallRelease 1 \<lparr>valid_now = 11, idle_now = 12\<rparr>,
      CallAcquire \<lparr>sweep_now = 13, sweep_range = [1], pick_range = [1],
                    creator_result = Inr 1, checkout_now = 14\<rparr>]
     ((New 3 5)\<lparr>mutex := MockMutex\<rparr>))) \<inter>
   fmdom' (unlock (run
     [CallAcquire \<lparr>sweep_now = 10, sweep_range = [], pick_range = [],
                    creator_result = (Inr 1 :: string + nat), checkout_now = 10\<rparr>,
      CallRelease 1 \<lparr>valid_now = 11, idle_now = 12\<rparr>,
      CallAcquire \<lparr>sweep_now = 13, sweep_range = [1], pick_range = [1],
                    creator_result = Inr 1, checkout_now = 14\<rparr>]
     ((New 3 5)\<lparr>mutex := MockMutex\<rparr>))) = {}"
  (is "?ranges \<and> ?disjoint")
proof -
  have h: ?ranges
    by (simp add: eval_defs)
  from in_use_idle_disjoint [OF h] h show ?thesis by simp
qed

text \<open>
  C2, at a pool built by \<^verbatim>\<open>New\<close>. \<^verbatim>\<open>Acquire\<close> creates resource 1 at time 10 and
  \<^verbatim>\<open>Release\<close> gives it back at time 11, well within \<^verbatim>\<open>maxIdleTime\<close>. \<^verbatim>\<open>Release\<close>
  locks the mutex, removes the resource from the in-use map and calls \<^verbatim>\<open>NumIdle\<close>, which
  calls \<^verbatim>\<open>Lock\<close> on the same \<^verbatim>\<open>sync.Mutex\<close> a second time: the call never returns,
  the mutex stays locked, and the resource is in neither map.
\<close>

theorem release_relocks_mutex:
  "Release (1::nat) \<lparr>valid_now = 11, idle_now = 11\<rparr>
     (snd (Acquire \<lparr>sweep_now = 10, sweep_range = [], pick_range = [],
                     creator_result = (Inr 1 :: string + nat), checkout_now = 10\<rparr> (New 3 5))) =
   (Blocked,
    \<lparr>maxIdleSize = 3, maxIdleTime = 5, mutex = SyncMutex True, lock = fmempty, unlock = fmempty,
     trace = [LockCall, CreatorCall, UnlockCall, LockCall, LockCall]\<rparr>)"
  by (simp add: eval_defs)

text \<open>
  C3. If the idle map holds at most \<^verbatim>\<open>maxIdleSize\<close> entries before \<^verbatim>\<open>Release\<close>, it
  holds at most \<^verbatim>\<open>maxIdleSize\<close> entries when the call is over, however it ends. And when
  the resource is in use and not stale and the idle map holds exactly \<^verbatim>\<open>maxIdleSize\<close>
  entries, \<^verbatim>\<open>Release\<close> removes the resource from the in-use map and leaves the idle map
  as it was.
\<close>

theorem release_keeps_idle_cap:
  assumes "int (fcard (fmdom (unlock n))) \<le> maxIdleSize n"
  shows "int (fcard (fmdom (unlock (snd (Release r env n))))) \<le> maxIdleSize (snd (Release r env n)) \<and>
         (mutex n \<noteq> SyncMutex True \<and> fmlookup (lock n) r = Some ts \<and>
          \<not> Before ts (getValidTimestamp (valid_now env) n) \<and>
          int (fcard (fmdom (unlock n))) = maxIdleSize n \<longrightarrow>
            lock (snd (Release r env n)) = fmdrop r (lock n) \<and>
            unlock (snd (Release r env n)) = unlock n)"
  using Release_idle_cap [OF assms, of r env]
  by (simp add: Release_lock Release_unlock)

theorem release_keeps_idle_cap_witness:
  "int (fcard (fmdom (unlock (test_pool 1 5 (fmupd (2::nat) 10 fmempty) (fmupd 5 10 fmempty))))) \<le>
     maxIdleSize (test_pool 1 5 (fmupd (2::nat) 10 fmempty) (fmupd 5 10 fmempty)) \<and>
   mutex (test_pool 1 5 (fmupd (2::nat) 10 fmempty) (fmupd 5 10 fmempty)) \<noteq> SyncMutex True \<and>
   fmlookup (lock (test_pool 1 5 (fmupd (2::nat) 10 fmempty) (fmupd 5 10 fmempty))) 2 = Some 10 \<and>
   \<not> Before 10 (getValidTimestamp 11
          (test_pool 1 5 (fmupd (2::nat) 10 fmempty) (fmupd 5 10 fmempty))) \<and>
   int (fcard (fmdom (unlock (test_pool 1 5 (fmupd (2::nat) 10 fmempty) (fmupd 5 10 fmempty))))) =
     maxIdleSize (test_pool 1 5 (fmupd (2::nat) 10 fmempty) (fmupd 5 10 fmempty)) \<and>
   int (fcard (fmdom (unlock (snd (Release 2 \<lparr>valid_now = 11, idle_now = 11\<rparr>
     (test_pool 1 5 (fmupd (2::nat) 10 fmempty) (fmupd 5 10 fmempty))))))) \<le> 1 \<and>
   lock (snd (Release 2 \<lparr>valid_now = 11, idle_now = 11\<rparr>
     (test_pool 1 5 (fmupd (2::nat) 10 fmempty) (fmupd 5 10 fmempty)))) = fmempty \<and>
   unlock (snd (Release 2 \<lparr>valid_now = 11, idle_now = 11\<rparr>
     (test_pool 1 5 (fmupd (2::nat) 10 fmempty) (fmupd 5 10 fmempty)))) = fmupd 5 10 fmempty"
  (is "int (fcard (fmdom (unlock ?n))) \<le> _ \<and> _")
  using release_keeps_idle_cap [where n = ?n and r = 2 and env = "\<lparr>valid_now = 11, idle_now = 11\<rparr>" and ts = 10]
  by (simp add: eval_defs)

text \<open>
  C4, as stated, fails: the sweep runs before the creator is called, so an expired idle
  entry is gone when the creator's error is returned. The pool of the test
  "with expired idle resource", with a failing creator:
\<close>

theorem acquire_failure_after_sweep_counterexample:
  "creator_calls (snd (Acquire
      \<lparr>sweep_now = 100, sweep_range = [2], pick_range = [2],
       creator_result = (Inl ''error response'' :: string + nat), checkout_now = 100\<rparr>
      (test_pool 3 5 fmempty (fmupd 2 0 fmempty)))) = 1 \<and>
   fst (Acquire
      \<lparr>sweep_now = 100, sweep_range = [2], pick_range = [2],
       creator_result = (Inl ''error response'' :: string + nat), checkout_now = 100\<rparr>
      (test_pool 3 5 fmempty (fmupd 2 0 fmempty))) = Returned (Inl ''error response'') \<and>
   unlock (snd (Acquire
      \<lparr>sweep_now = 100, sweep_range = [2], pick_range = [2],
       creator_result = (Inl ''error response'' :: string + nat), checkout_now = 100\<rparr>
      (test_pool 3 5 fmempty (fmupd 2 0 fmempty)))) \<noteq>
   unlock (test_pool 3 5 fmempty (fmupd (2::nat) 0 fmempty))"
  by (simp add: eval_defs)

text \<open>
  C4, amended. When \<^verbatim>\<open>Acquire\<close> calls the creator and the creator fails, \<^verbatim>\<open>Acquire\<close>
  returns the creator's error itself and adds no entry to either map: the in-use map is as
  it was at the start of the call, and the idle map is as the sweep left it, which is
  empty (the idle entries of the start of the call were all expired and have been removed).
\<close>

theorem acquire_creator_failure:
  assumes "acquire_ranges env n"
    and "creator_calls (snd (Acquire env n)) \<noteq> creator_calls n"
    and "creator_result env = Inl err"
  shows "fst (Acquire env n) = Returned (Inl err) \<and>
         lock (snd (Acquire env n)) = lock n \<and>
         unlock (snd (Acquire env n)) = sweep_spec (getValidTimestamp (sweep_now env) n) (unlock n) \<and>
         unlock (snd (Acquire env n)) = fmempty"
proof -
  from assms(2) have free: "mutex n \<noteq> SyncMutex True" and nil: "offered env n = []"
    by (simp_all add: Acquire_creator_calls split: if_splits)
  from assms(1) nil
  have "sweep_spec (getValidTimestamp (sweep_now env) n) (unlock n) = fmempty"
    by (rule offered_Nil)
  then show ?thesis
    using assms(3)
    by (simp add: Acquire_create(1,2,3) [OF free nil] acquire_ranges_sweep [OF assms(1)])
qed

theorem acquire_creator_failure_witness:
  "acquire_ranges
      \<lparr>sweep_now = 100, sweep_range = [2], pick_range = [2],
       creator_result = (Inl ''error response'' :: string + nat), checkout_now = 100\<rparr>
      (test_pool 3 5 (fmupd 7 99 fmempty) (fmupd 2 0 fmempty)) \<and>
   creator_calls (snd (Acquire
      \<lparr>sweep_now = 100, sweep_range = [2], pick_range = [2],
       creator_result = (Inl ''error response'' :: string + nat), checkout_now = 100\<rparr>
      (test_pool 3 5 (fmupd 7 99 fmempty) (fmupd 2 0 fmempty)))) \<noteq>
   creator_calls (test_pool 3 5 (fmupd (7::nat) 99 fmempty) (fmupd 2 0 fmempty)) \<and>
   fst (Acquire
      \<lparr>sweep_now = 100, sweep_range = [2], pick_range = [2],
       creator_result = (Inl ''error response'' :: string + nat), checkout_now = 100\<rparr>
      (test_pool 3 5 (fmupd 7 99 fmempty) (fmupd 2 0 fmempty))) = Returned (Inl ''error response'') \<and>
   lock (snd (Acquire
      \<lparr>sweep_now = 100, sweep_range = [2], pick_range = [2],
       creator_result = (Inl ''error response'' :: string + nat), checkout_now = 100\<rparr>
      (test_pool 3 5 (fmupd 7 99 fmempty) (fmupd 2 0 fmempty)))) = fmupd 7 99 fmempty \<and>
   unlock (snd (Acquire
      \<lparr>sweep_now = 100, sweep_range = [2], pick_range = [2],
       creator_result = (Inl ''error response'' :: string + nat), checkout_now = 100\<rparr>
      (test_pool 3 5 (fmupd 7 99 fmempty) (fmupd 2 0 fmempty)))) = fmempty"
  (is "acquire_ranges ?env ?n \<and> _")
  using acquire_creator_failure [where n = ?n and env = ?env and err = "''error response''"]
  by (simp add: eval_defs)

text \<open>
  C5, as stated, fails: with an expired entry 1 beside the unexpired entry 2,
  \<^verbatim>\<open>Acquire\<close> returns 2 and the idle map has lost entry 1 as well.
\<close>

theorem acquire_reuse_sweeps_counterexample:
  "fmlookup (unlock (test_pool 3 5 fmempty (fmupd (1::nat) 0 (fmupd 2 100 fmempty)))) 2 = Some 100 \<and>
   \<not> Before 100 (getValidTimestamp 100
          (test_pool 3 5 fmempty (fmupd (1::nat) 0 (fmupd 2 100 fmempty)))) \<and>
   fst (Acquire
      \<lparr>sweep_now = 100, sweep_range = [1, 2], pick_range = [1, 2],
       creator_result = (Inr 9 :: string + nat), checkout_now = 101\<rparr>
      (test_pool 3 5 fmempty (fmupd 1 0 (fmupd 2 100 fmempty)))) = Returned (Inr 2) \<and>
   fmlookup (unlock (test_pool 3 5 fmempty (fmupd (1::nat) 0 (fmupd 2 100 fmempty)))) 1 = Some 0 \<and>
   fmlookup (unlock (snd (Acquire
      \<lparr>sweep_now = 100, sweep_range = [1, 2], pick_range = [1, 2],
       creator_result = (Inr 9 :: string + nat), checkout_now = 101\<rparr>
      (test_pool 3 5 fmempty (fmupd 1 0 (fmupd 2 100 fmempty)))))) 1 = None"
  by (simp add: eval_defs)

text \<open>
  C5, amended. When the idle map holds an unexpired entry, \<^verbatim>\<open>Acquire\<close> returns a
  resource that was an unexpired entry of the idle map, without calling the creator (in
  the example below the runtime visits the expired entry 1 first; it is gone by then). It
  removes that entry, and besides it only the expired entries, from the idle map, and puts
  the resource into the in-use map with the clock reading of the checkout as timestamp.
\<close>

theorem acquire_reuses_idle:
  assumes "mutex n \<noteq> SyncMutex True" and "acquire_ranges env n"
    and "fmlookup (unlock n) k = Some ts"
    and "\<not> Before ts (getValidTimestamp (sweep_now env) n)"
  shows "\<exists>r tr. fst (Acquire env n) = Returned (Inr r) \<and>
           fmlookup (unlock n) r = Some tr \<and>
           \<not> Before tr (getValidTimestamp (sweep_now env) n) \<and>
           creator_calls (snd (Acquire env n)) = creator_calls n \<and>
           unlock (snd (Acquire env n)) =
             fmdrop r (sweep_spec (getValidTimestamp (sweep_now env) n) (unlock n)) \<and>
           lock (snd (Acquire env n)) = fmupd r (checkout_now env) (lock n)"
proof -
  let ?v = "getValidTimestamp (sweep_now env) n"
  have "fmlookup (sweep_spec ?v (unlock n)) k = Some ts"
    using assms(3,4) by (simp add: sweep_spec_lookup)
  then have "sweep_spec ?v (unlock n) \<noteq> fmempty"
    by auto
  then obtain r rest where pick: "offered env n = r # rest"
    using offered_Nil [OF assms(2)] by (cases "offered env n") auto
  from offered_Cons [OF assms(2) pick]
  obtain tr where "fmlookup (sweep_spec ?v (unlock n)) r = Some tr"
    by auto
  then have "fmlookup (unlock n) r = Some tr \<and> \<not> Before tr ?v"
    by (auto simp: sweep_spec_lookup split: option.splits if_splits)
  then show ?thesis
    using assms(1) pick
    by (simp add: Acquire_reuse(1,2,3) [OF assms(1) pick] Acquire_creator_calls
        acquire_ranges_sweep [OF assms(2)])
qed

theorem acquire_reuses_idle_witness:
  "mutex (test_pool 3 5 fmempty (fmupd (1::nat) 0 (fmupd 2 100 fmempty))) \<noteq> SyncMutex True \<and>
   acquire_ranges
      \<lparr>sweep_now = 100, sweep_range = [1, 2], pick_range = [1, 2],
       creator_result = (Inr 9 :: string + nat), checkout_now = 101\<rparr>
      (test_pool 3 5 fmempty (fmupd 1 0 (fmupd 2 100 fmempty))) \<and>
   fmlookup (unlock (test_pool 3 5 fmempty (fmupd (1::nat) 0 (fmupd 2 100 fmempty)))) 2 = Some 100 \<and>
   \<not> Before 100 (getValidTimestamp 100
          (test_pool 3 5 fmempty (fmupd (1::nat) 0 (fmupd 2 100 fmempty)))) \<and>
   fst (Acquire
      \<lparr>sweep_now = 100, sweep_range = [1, 2], pick_range = [1, 2],
       creator_result = (Inr 9 :: string + nat), checkout_now = 101\<rparr>
      (test_pool 3 5 fmempty (fmupd 1 0 (fmupd 2 100 fmempty)))) = Returned (Inr 2) \<and>
   creator_calls (snd (Acquire
      \<lparr>sweep_now = 100, sweep_range = [1, 2], pick_range = [1, 2],
       creator_result = (Inr 9 :: string + nat), checkout_now = 101\<rparr>
      (test_pool 3 5 fmempty (fmupd 1 0 (fmupd 2 100 fmempty))))) = 0 \<and>
   unlock (snd (Acquire
      \<lparr>sweep_now = 100, sweep_range = [1, 2], pick_range = [1, 2],
       creator_result = (Inr 9 :: string + nat), checkout_now = 101\<rparr>
      (test_pool 3 5 fmempty (fmupd 1 0 (fmupd 2 100 fmempty))))) = fmempty \<and>
   lock (snd (Acquire
      \<lparr>sweep_now = 100, sweep_range = [1, 2], pick_range = [1, 2],
       creator_result = (Inr 9 :: string + nat), checkout_now = 101\<rparr>
      (test_pool 3 5 fmempty (fmupd 1 0 (fmupd 2 100 fmempty))))) = fmupd 2 101 fmempty"
  (is "mutex ?n \<noteq> _ \<and> acquire_ranges ?env ?n \<and> _")
  using acquire_reuses_idle [where n = ?n and env = ?env and k = 2 and ts = 100]
  by (simp add: eval_defs)

text \<open>
  C6. When the idle map is empty, or every idle entry is older than the threshold,
  \<^verbatim>\<open>Acquire\<close> calls the creator exactly once and returns what the creator returned: the
  error on failure; on success the new resource, which it has put into the in-use map with
  the clock reading of the checkout as timestamp.
\<close>

theorem acquire_calls_creator:
  assumes "mutex n \<noteq> SyncMutex True" and "acquire_ranges env n"
    and "\<forall>k ts. fmlookup (unlock n) k = Some ts \<longrightarrow> Before ts (getValidTimestamp (sweep_now env) n)"
  shows "creator_calls (snd (Acquire env n)) = Suc (creator_calls n) \<and>
         fst (Acquire env n) = Returned (creator_result env) \<and>
         lock (snd (Acquire env n)) =
           (case creator_result env of Inl err \<Rightarrow> lock n
            | Inr r \<Rightarrow> fmupd r (checkout_now env) (lock n))"
proof -
  let ?v = "getValidTimestamp (sweep_now env) n"
  have "fmlookup (sweep_spec ?v (unlock n)) k = None" for k
    using assms(3) by (auto simp: sweep_spec_lookup split: option.splits)
  moreover have "fmlookup (sweep_spec ?v (unlock n)) k \<noteq> None" if "offered env n = k # ks" for k ks
    using offered_Cons [OF assms(2) that] .
  ultimately have nil: "offered env n = []"
    by (cases "offered env n") auto
  show ?thesis
    using assms(1) nil
    by (simp add: Acquire_creator_calls Acquire_create(1,2) [OF assms(1) nil])
qed

theorem acquire_calls_creator_witness:
  "mutex (test_pool 3 5 fmempty (fmupd (2::nat) 0 fmempty)) \<noteq> SyncMutex True \<and>
   acquire_ranges
      \<lparr>sweep_now = 100, sweep_range = [2], pick_range = [2],
       creator_result = (Inr 1 :: string + nat), checkout_now = 101\<rparr>
      (test_pool 3 5 fmempty (fmupd 2 0 fmempty)) \<and>
   fmlookup (unlock (test_pool 3 5 fmempty (fmupd (2::nat) 0 fmempty))) 2 = Some 0 \<and>
   Before 0 (getValidTimestamp 100 (test_pool 3 5 fmempty (fmupd (2::nat) 0 fmempty))) \<and>
   creator_calls (snd (Acquire
      \<lparr>sweep_now = 100, sweep_range = [2], pick_range = [2],
       creator_result = (Inr 1 :: string + nat), checkout_now = 101\<rparr>
      (test_pool 3 5 fmempty (fmupd 2 0 fmempty)))) = 1 \<and>
   fst (Acquire
      \<lparr>sweep_now = 100, sweep_range = [2], pick_range = [2],
       creator_result = (Inr 1 :: string + nat), checkout_now = 101\<rparr>
      (test_pool 3 5 fmempty (fmupd 2 0 fmempty))) = Returned (Inr 1) \<and>
   lock (snd (Acquire
      \<lparr>sweep_now = 100, sweep_range = [2], pick_range = [2],
       creator_result = (Inr 1 :: string + nat), checkout_now = 101\<rparr>
      (test_pool 3 5 fmempty (fmupd 2 0 fmempty)))) = fmupd 1 101 fmempty"
  (is "mutex ?n \<noteq> _ \<and> acquire_ranges ?env ?n \<and> _")
  using acquire_calls_creator [where n = ?n and env = ?env]
  by (auto simp: eval_defs split: if_splits)

text \<open>
  C7, as stated, fails: a resource is known to the pool by its value, and the creator may
  return a value equal to an entry that the sweep has just discarded (with the resource type
  \<^verbatim>\<open>PoolResource\<close> of the source, an empty struct, it always does). Here entry 2 is
  expired, and \<^verbatim>\<open>Acquire\<close> returns 2.
\<close>

theorem swept_resource_returned_counterexample:
  "fmlookup (unlock (test_pool 3 5 fmempty (fmupd (2::nat) 0 fmempty))) 2 = Some 0 \<and>
   Before 0 (getValidTimestamp 100 (test_pool 3 5 fmempty (fmupd (2::nat) 0 fmempty))) \<and>
   fst (Acquire
      \<lparr>sweep_now = 100, sweep_range = [2], pick_range = [2],
       creator_result = (Inr 2 :: string + nat), checkout_now = 101\<rparr>
      (test_pool 3 5 fmempty (fmupd 2 0 fmempty))) = Returned (Inr 2)"
  by (simp add: eval_defs)

text \<open>
  C7, amended. Every \<^verbatim>\<open>Acquire\<close> first removes from the idle map every entry older than
  the threshold, and only those, before it selects. So for every idle entry older than the
  threshold: the sweep removes it, it is not in the idle map after the call, and if the
  call returns that resource then the creator was called in this call and returned it. A
  swept entry is never the one selected for reuse.
\<close>

theorem sweep_before_selection:
  assumes "mutex n \<noteq> SyncMutex True" and "acquire_ranges env n"
  shows "unlock (deleteInvalidIdleResources (sweep_now env) (sweep_range env) n) =
           sweep_spec (getValidTimestamp (sweep_now env) n) (unlock n) \<and>
         (\<forall>r ts. fmlookup (unlock n) r = Some ts \<and> Before ts (getValidTimestamp (sweep_now env) n) \<longrightarrow>
            fmlookup (unlock (deleteInvalidIdleResources (sweep_now env) (sweep_range env) n)) r = None \<and>
            fmlookup (unlock (snd (Acquire env n))) r = None \<and>
            (fst (Acquire env n) = Returned (Inr r) \<longrightarrow>
               creator_calls (snd (Acquire env n)) = Suc (creator_calls n) \<and>
               creator_result env = Inr r))"
proof -
  let ?v = "getValidTimestamp (sweep_now env) n"
  have sweep: "unlock (deleteInvalidIdleResources (sweep_now env) (sweep_range env) n) =
      sweep_spec ?v (unlock n)"
    by (simp add: deleteInvalidIdleResources_def acquire_ranges_sweep [OF assms(2)])
  have "fmlookup (unlock (deleteInvalidIdleResources (sweep_now env) (sweep_range env) n)) r = None \<and>
        fmlookup (unlock (snd (Acquire env n))) r = None \<and>
        (fst (Acquire env n) = Returned (Inr r) \<longrightarrow>
           creator_calls (snd (Acquire env n)) = Suc (creator_calls n) \<and>
           creator_result env = Inr r)"
    if old: "fmlookup (unlock n) r = Some ts" "Before ts ?v" for r ts
  proof -
    have gone: "fmlookup (sweep_spec ?v (unlock n)) r = None"
      using old by (simp add: sweep_spec_lookup)
    show ?thesis
    proof (cases "offered env n")
      case Nil
      then show ?thesis
        using assms(1) gone sweep
        by (simp add: Acquire_create(1,3) [OF assms(1) Nil] Acquire_creator_calls
            acquire_ranges_sweep [OF assms(2)])
    next
      case (Cons k ks)
      from assms(2) Cons
      have "fmlookup (sweep_spec ?v (unlock n)) k \<noteq> None"
        by (rule offered_Cons)
      with gone have "k \<noteq> r" by auto
      then show ?thesis
        using gone sweep
        by (simp add: Acquire_reuse(1,3) [OF assms(1) Cons] acquire_ranges_sweep [OF assms(2)])
    qed
  qed
  with sweep show ?thesis by blast
qed

theorem sweep_before_selection_witness:
  "mutex (test_pool 3 5 fmempty (fmupd (2::nat) 0 fmempty)) \<noteq> SyncMutex True \<and>
   acquire_ranges
      \<lparr>sweep_now = 100, sweep_range = [2], pick_range = [2],
       creator_result = (Inr 2 :: string + nat), checkout_now = 101\<rparr>
      (test_pool 3 5 fmempty (fmupd 2 0 fmempty)) \<and>
   fmlookup (unlock (test_pool 3 5 fmempty (fmupd (2::nat) 0 fmempty))) 2 = Some 0 \<and>
   Before 0 (getValidTimestamp 100 (test_pool 3 5 fmempty (fmupd (2::nat) 0 fmempty))) \<and>
   unlock (deleteInvalidIdleResources 100 [2] (test_pool 3 5 fmempty (fmupd (2::nat) 0 fmempty))) =
     fmempty \<and>
   fmlookup (unlock (snd (Acquire
      \<lparr>sweep_now = 100, sweep_range = [2], pick_range = [2],
       creator_result = (Inr 2 :: string + nat), checkout_now = 101\<rparr>
      (test_pool 3 5 fmempty (fmupd 2 0 fmempty))))) 2 = None \<and>
   creator_calls (snd (Acquire
      \<lparr>sweep_now = 100, sweep_range = [2], pick_range = [2],
       creator_result = (Inr 2 :: string + nat), checkout_now = 101\<rparr>
      (test_pool 3 5 fmempty (fmupd 2 0 fmempty)))) = 1"
  (is "mutex ?n \<noteq> _ \<and> acquire_ranges ?env ?n \<and> _")
  using sweep_before_selection [where n = ?n and env = ?env]
  by (simp add: eval_defs)

text \<open>
  C8. \<^verbatim>\<open>Release\<close> of a resource that is not in the in-use map leaves the in-use map
  and the idle map exactly as they were, in every state of the pool; and it returns (there
  is no error to return) as soon as it obtains the lock.
\<close>

theorem release_unknown_noop:
  assumes "fmlookup (lock n) r = None"
  shows "lock (snd (Release r env n)) = lock n \<and>
         unlock (snd (Release r env n)) = unlock n \<and>
         (mutex n \<noteq> SyncMutex True \<longrightarrow> fst (Release r env n) = Returned ())"
  using assms by (simp add: Release_outcome Release_lock Release_unlock fmdrop_idle' fmdom'_notI)

theorem release_unknown_noop_witness:
  "fmlookup (lock (test_pool 3 5 (fmupd (1::nat) 100 fmempty) (fmupd 5 100 fmempty))) 2 = None \<and>
   mutex (test_pool 3 5 (fmupd (1::nat) 100 fmempty) (fmupd 5 100 fmempty)) \<noteq> SyncMutex True \<and>
   fst (Release 2 \<lparr>valid_now = 101, idle_now = 101\<rparr>
     (test_pool 3 5 (fmupd (1::nat) 100 fmempty) (fmupd 5 100 fmempty))) = Returned () \<and>
   lock (snd (Release 2 \<lparr>valid_now = 101, idle_now = 101\<rparr>
     (test_pool 3 5 (fmupd (1::nat) 100 fmempty) (fmupd 5 100 fmempty)))) = fmupd 1 100 fmempty \<and>
   unlock (snd (Release 2 \<lparr>valid_now = 101, idle_now = 101\<rparr>
     (test_pool 3 5 (fmupd (1::nat) 100 fmempty) (fmupd 5 100 fmempty)))) = fmupd 5 100 fmempty"
  (is "fmlookup (lock ?n) 2 = None \<and> _")
  using release_unknown_noop [where n = ?n and r = 2 and env = "\<lparr>valid_now = 101, idle_now = 101\<rparr>"]
  by (simp add: eval_defs)

text \<open>
  C9. \<^verbatim>\<open>Release\<close> of a resource that is in the in-use map removes it from that map,
  however the call goes on; and when its checkout timestamp is older than the threshold,
  the call returns with the idle map unchanged.
\<close>

theorem release_removes_in_use:
  assumes "fmlookup (lock n) r = Some ts" and "mutex n \<noteq> SyncMutex True"
  shows "lock (snd (Release r env n)) = fmdrop r (lock n) \<and>
         fmlookup (lock (snd (Release r env n))) r = None \<and>
         (Before ts (getValidTimestamp (valid_now env) n) \<longrightarrow>
            unlock (snd (Release r env n)) = unlock n \<and> fst (Release r env n) = Returned ())"
  using assms by (simp add: Release_outcome Release_lock Release_unlock)

theorem release_removes_in_use_witness:
  "fmlookup (lock (test_pool 3 5 (fmupd (2::nat) 0 fmempty) (fmupd 5 100 fmempty))) 2 = Some 0 \<and>
   mutex (test_pool 3 5 (fmupd (2::nat) 0 fmempty) (fmupd 5 100 fmempty)) \<noteq> SyncMutex True \<and>
   Before 0 (getValidTimestamp 100 (test_pool 3 5 (fmupd (2::nat) 0 fmempty) (fmupd 5 100 fmempty))) \<and>
   lock (snd (Release 2 \<lparr>valid_now = 100, idle_now = 100\<rparr>
     (test_pool 3 5 (fmupd (2::nat) 0 fmempty) (fmupd 5 100 fmempty)))) = fmempty \<and>
   unlock (snd (Release 2 \<lparr>valid_now = 100, idle_now = 100\<rparr>
     (test_pool 3 5 (fmupd (2::nat) 0 fmempty) (fmupd 5 100 fmempty)))) = fmupd 5 100 fmempty"
  (is "fmlookup (lock ?n) 2 = Some 0 \<and> _")
  using release_removes_in_use [where n = ?n and r = 2 and ts = 0 and env = "\<lparr>valid_now = 100, idle_now = 100\<rparr>"]
  by (simp add: eval_defs)

text \<open>
  C10, at a pool built by \<^verbatim>\<open>New\<close> with room for three idle resources. Resource 1 is
  checked out at time 10 and released at time 15, so that its checkout timestamp is exactly
  the threshold. It is not treated as stale; but it is not put into the idle map either:
  the capacity check calls \<^verbatim>\<open>NumIdle\<close>, which blocks on the mutex that \<^verbatim>\<open>Release\<close>
  holds.
\<close>

theorem release_at_threshold_blocks:
  "fmlookup (lock (snd (Acquire \<lparr>sweep_now = 10, sweep_range = [], pick_range = [],
                     creator_result = (Inr 1 :: string + nat), checkout_now = 10\<rparr> (New 3 5)))) 1 =
     Some (getValidTimestamp 15 (New 3 5 :: nat NewPool)) \<and>
   Release (1::nat) \<lparr>valid_now = 15, idle_now = 15\<rparr>
     (snd (Acquire \<lparr>sweep_now = 10, sweep_range = [], pick_range = [],
                     creator_result = (Inr 1 :: string + nat), checkout_now = 10\<rparr> (New 3 5))) =
   (Blocked,
    \<lparr>maxIdleSize = 3, maxIdleTime = 5, mutex = SyncMutex True, lock = fmempty, unlock = fmempty,
     trace = [LockCall, CreatorCall, UnlockCall, LockCall, LockCall]\<rparr>)"
  by (simp add: eval_defs)

end
